theory Spec2Isabelle
  imports Main
begin

section \<open>Raster cells\<close>

text \<open>
  A character image is a numpy array of shape (height, width, channels); the code reads
  its shape and the sample at row \<open>y\<close>, column \<open>x\<close>. Of a pixel only channels 0, 1 and 2
  are ever read (\<open>is_background\<close>), so a pixel is the triple of these samples. Python
  integers are unbounded: coordinates and character codes are \<open>int\<close>, list positions
  \<open>nat\<close>.
\<close>

type_synonym pixel = "nat \<times> nat \<times> nat"

record raster_cell =
  height :: nat
  width :: nat
  pixel_at :: "nat \<Rightarrow> nat \<Rightarrow> pixel"

text \<open>\<open>is_background\<close>: the salmon background colour #9F5B53, compared exactly.\<close>

definition is_background :: "pixel \<Rightarrow> bool" where
  "is_background pixel =
     (case pixel of (r, g, b) \<Rightarrow> r = 0x9F \<and> g = 0x5B \<and> b = 0x53)"

section \<open>The glyph pen\<close>

text \<open>
  The pen is the font library's glyph pen (fontTools' \<open>TTGlyphPen\<close> with its default
  options), outside the repository. The model keeps the points of the open path and the
  closed paths in drawing order. \<open>moveTo\<close> starts a path and \<open>lineTo\<close> adds a point; the
  program calls \<open>moveTo\<close> only when no path is open. \<open>closePath\<close> follows the library:
  a path of a single point is an anchor and is discarded; when the last point of a longer
  path equals its first, that last point is removed; what remains is recorded as a
  contour. (On a pen with no open path the library fails; the program closes a path only
  after \<open>moveTo\<close> and \<open>lineTo\<close>.) \<open>glyph\<close> returns the recorded contours.
\<close>

type_synonym point = "int \<times> int"
type_synonym outline = "point list list"

record pen =
  current :: "point list"
  contours :: "point list list"

definition TTGlyphPen :: pen where
  "TTGlyphPen = \<lparr>current = [], contours = []\<rparr>"

definition moveTo :: "point \<Rightarrow> pen \<Rightarrow> pen" where
  "moveTo p pn = pn\<lparr>current := [p]\<rparr>"

definition lineTo :: "point \<Rightarrow> pen \<Rightarrow> pen" where
  "lineTo p pn = pn\<lparr>current := current pn @ [p]\<rparr>"

definition closePath :: "pen \<Rightarrow> pen" where
  "closePath pn =
     (case current pn of
        [] \<Rightarrow> pn
      | [p] \<Rightarrow> pn\<lparr>current := []\<rparr>
      | p # ps \<Rightarrow>
          (if last ps = p then pn\<lparr>contours := contours pn @ [p # butlast ps], current := []\<rparr>
           else pn\<lparr>contours := contours pn @ [p # ps], current := []\<rparr>))"

definition glyph :: "pen \<Rightarrow> outline" where
  "glyph pn = contours pn"

section \<open>FontCreator\<close>

text \<open>Constants set in \<open>__init__\<close>: the fixed 8x8 grid and 1024 units per em.\<close>

definition char_width :: int where
  "char_width = 8"

definition char_height :: int where
  "char_height = 8"

definition units_per_em :: int where
  "units_per_em = 1024"

definition scale :: int where
  "scale = units_per_em div 8"

text \<open>
  The font object under construction. Of its tables the model keeps the glyph order, the
  glyph counts of \<open>hhea\<close> and \<open>maxp\<close>, the horizontal metrics, the character map of the
  single format 4 subtable and the outlines of \<open>glyf\<close>. The \<open>head\<close>, \<open>OS/2\<close>, \<open>name\<close> and
  \<open>post\<close> tables are filled with constants and read by nothing else in the program.
  Console output is not part of the model: the print calls, and the \<open>chr\<close> conversions
  made only for them, are left out.
\<close>

record font =
  glyph_order :: "string list"
  numberOfHMetrics :: nat
  numGlyphs :: nat
  metrics :: "string \<rightharpoonup> int \<times> int"
  cmap :: "int \<rightharpoonup> string"
  glyphs :: "string \<rightharpoonup> outline"

definition TTFont :: font where
  "TTFont = \<lparr>glyph_order = [], numberOfHMetrics = 0, numGlyphs = 0,
             metrics = Map.empty, cmap = Map.empty, glyphs = Map.empty\<rparr>"

subsection \<open>Glyph names\<close>

text \<open>
  \<open>f'glyph{k:05d}'\<close>: the decimal digits of \<open>k\<close>, padded on the left with zeros to five
  characters (longer numbers are not cut).
\<close>

definition digit_char :: "nat \<Rightarrow> char" where
  "digit_char d = ''0123456789'' ! d"

fun decimal :: "nat \<Rightarrow> string" where
  "decimal n =
     (if n < 10 then [digit_char n] else decimal (n div 10) @ [digit_char (n mod 10)])"

declare decimal.simps [simp del]

definition fmt_05d :: "nat \<Rightarrow> string" where
  "fmt_05d n = replicate (5 - length (decimal n)) (CHR ''0'') @ decimal n"

text \<open>The name of the content glyph at list position \<open>i\<close>: \<open>f'glyph{i+1:05d}'\<close>.\<close>

definition glyph_name :: "nat \<Rightarrow> string" where
  "glyph_name i = ''glyph'' @ fmt_05d (i + 1)"

text \<open>Reading a digit string back; used to show that names do not clash.\<close>

definition digit_val :: "char \<Rightarrow> nat" where
  "digit_val c = of_char c - 48"

definition read_decimal :: "string \<Rightarrow> nat" where
  "read_decimal s = fold (\<lambda>c a. 10 * a + digit_val c) s 0"

subsection \<open>Table set-up in \<open>create_font\<close>\<close>

definition create_hhea_table :: "string list \<Rightarrow> font \<Rightarrow> font" where
  "create_hhea_table glyph_names f = f\<lparr>numberOfHMetrics := length glyph_names\<rparr>"

definition create_maxp_table :: "string list \<Rightarrow> font \<Rightarrow> font" where
  "create_maxp_table glyph_names f = f\<lparr>numGlyphs := length glyph_names\<rparr>"

definition create_hmtx_table :: "font \<Rightarrow> font" where
  "create_hmtx_table f = f\<lparr>metrics := Map.empty\<rparr>"

definition create_cmap_table :: "font \<Rightarrow> font" where
  "create_cmap_table f = f\<lparr>cmap := Map.empty(0 \<mapsto> ''.notdef'')\<rparr>"

definition create_glyf_table :: "font \<Rightarrow> font" where
  "create_glyf_table f = f\<lparr>glyphs := Map.empty\<rparr>"

subsection \<open>Vectorising one cell\<close>

text \<open>
  The body of the two pixel loops: a pixel that is not background draws one square and
  counts; the loop state is the pen, \<open>has_pixels\<close> and \<open>pixel_count\<close>.
\<close>

definition draw_pixel :: "raster_cell \<Rightarrow> nat \<Rightarrow> nat \<Rightarrow> pen \<times> bool \<times> nat \<Rightarrow> pen \<times> bool \<times> nat" where
  "draw_pixel char_img y x st =
     (case st of (pn, has_pixels, pixel_count) \<Rightarrow>
        if \<not> is_background (pixel_at char_img y x) then
          let x0 = int x * scale;
              y0 = (7 - int y) * scale;
              x1 = (int x + 1) * scale;
              y1 = (8 - int y) * scale
          in (closePath (lineTo (x0, y1) (lineTo (x1, y1) (lineTo (x1, y0) (moveTo (x0, y0) pn)))),
              True, pixel_count + 1)
        else (pn, has_pixels, pixel_count))"

definition draw_cell :: "raster_cell \<Rightarrow> pen \<times> bool \<times> nat" where
  "draw_cell char_img =
     fold (\<lambda>y. fold (\<lambda>x. draw_pixel char_img y x) [0..<width char_img])
       [0..<height char_img] (TTGlyphPen, False, 0)"

text \<open>The empty glyph drawn when no pixel was: \<open>moveTo((0, 0)); lineTo((0, 0)); closePath()\<close>.\<close>

definition empty_glyph_pen :: pen where
  "empty_glyph_pen = closePath (lineTo (0, 0) (moveTo (0, 0) TTGlyphPen))"

definition glyph_outline :: "raster_cell \<Rightarrow> outline" where
  "glyph_outline char_img =
     (case draw_cell char_img of (pn, has_pixels, pixel_count) \<Rightarrow>
        glyph (if \<not> has_pixels then empty_glyph_pen else pn))"

subsection \<open>Character codes of one glyph\<close>

definition base_ascii :: "nat \<Rightarrow> int" where
  "base_ascii i = 33 + int i - 1"

definition original_pos :: "nat \<Rightarrow> int" where
  "original_pos i = base_ascii i + 32"

text \<open>The override target of the branch for original positions 32 to 63.\<close>

definition remap_target :: "int \<Rightarrow> int" where
  "remap_target pos = 62 + (pos - 32)"

text \<open>
  The two conditionals that set \<open>ascii_value\<close>, as a function of the locals \<open>base_ascii\<close>
  and \<open>original_pos\<close> they read.
\<close>

definition primary_code :: "int \<Rightarrow> int \<Rightarrow> int" where
  "primary_code base pos =
     (let ascii_value = (if base \<ge> 97 \<and> base \<le> 122 then base else base - 32)
      in if pos \<ge> 32 \<and> pos \<le> 63 then remap_target pos else ascii_value)"

definition ascii_value :: "nat \<Rightarrow> int" where
  "ascii_value i = primary_code (base_ascii i) (original_pos i)"

text \<open>The dictionary assignments of one loop iteration, in the order of the code.\<close>

definition cmap_step :: "nat \<Rightarrow> string \<Rightarrow> (int \<rightharpoonup> string) \<Rightarrow> (int \<rightharpoonup> string)" where
  "cmap_step i name cm =
     (let cm1 = cm(ascii_value i \<mapsto> name);
          cm2 = (if ascii_value i \<ge> 97 \<and> ascii_value i \<le> 122
                 then cm1(ascii_value i - 32 \<mapsto> name) else cm1);
          cm3 = (if original_pos i > 61
                 then (cm2(ascii_value i + 128 \<mapsto> name))
                        (0xE000 + (original_pos i - 32) \<mapsto> name)
                 else cm2)
      in cm3)"

subsection \<open>\<open>_create_glyphs\<close>\<close>

definition glyph_step :: "nat \<Rightarrow> raster_cell \<Rightarrow> font \<Rightarrow> font" where
  "glyph_step i char_img f =
     (let name = glyph_name i;
          f1 = f\<lparr>glyphs := (glyphs f)(name \<mapsto> glyph_outline char_img)\<rparr>;
          f2 = f1\<lparr>metrics := (metrics f1)(name \<mapsto> (char_width * scale, 0))\<rparr>
      in f2\<lparr>cmap := cmap_step i name (cmap f2)\<rparr>)"

definition glyph_loop :: "raster_cell list \<Rightarrow> font \<Rightarrow> font" where
  "glyph_loop characters f =
     fold (\<lambda>(i, char_img). glyph_step i char_img) (enumerate 0 characters) f"

definition notdef_outline :: outline where
  "notdef_outline =
     glyph (closePath (lineTo (0, char_height * scale)
       (lineTo (char_width * scale, char_height * scale)
         (lineTo (char_width * scale, 0) (moveTo (0, 0) TTGlyphPen)))))"

definition create_glyphs :: "raster_cell list \<Rightarrow> font \<Rightarrow> font" where
  "create_glyphs characters f =
     (let f1 = f\<lparr>glyphs := (glyphs f)(''.notdef'' \<mapsto> notdef_outline)\<rparr>;
          f2 = f1\<lparr>metrics := (metrics f1)(''.notdef'' \<mapsto> (char_width * scale, 0))\<rparr>;
          f3 = glyph_loop characters f2;
          space_glyph = glyph_name (length characters);
          f4 = f3\<lparr>glyphs := (glyphs f3)(space_glyph \<mapsto> glyph empty_glyph_pen)\<rparr>;
          f5 = f4\<lparr>metrics := (metrics f4)(space_glyph \<mapsto> (char_width * scale, 0))\<rparr>
      in f5\<lparr>cmap := (cmap f5)(32 \<mapsto> space_glyph)\<rparr>)"

subsection \<open>\<open>create_font\<close> and \<open>save_font\<close>\<close>

definition glyph_names :: "raster_cell list \<Rightarrow> string list" where
  "glyph_names characters =
     [''.notdef''] @ map glyph_name [0..<length characters] @ [glyph_name (length characters)]"

definition create_font :: "raster_cell list \<Rightarrow> font" where
  "create_font characters =
     (let names = glyph_names characters;
          f = TTFont\<lparr>glyph_order := names\<rparr>
      in create_glyphs characters
           (create_glyf_table (create_cmap_table (create_hmtx_table
             (create_maxp_table names (create_hhea_table names f))))))"

text \<open>
  The creator object: its character list and its font attribute, \<open>None\<close> until
  \<open>create_font\<close> has run. \<open>save_font\<close> raises when there is no font and otherwise hands
  the font to the writer; its result is the call the writer receives.
\<close>

record font_creator =
  characters :: "raster_cell list"
  font_attr :: "font option"

datatype error = ValueError string

record writer_call =
  written_font :: font
  output_path :: string

definition FontCreator :: "raster_cell list \<Rightarrow> font_creator" where
  "FontCreator chars = \<lparr>characters = chars, font_attr = None\<rparr>"

definition run_create_font :: "font_creator \<Rightarrow> font_creator" where
  "run_create_font self = self\<lparr>font_attr := Some (create_font (characters self))\<rparr>"

definition save_font :: "font_creator \<Rightarrow> string \<Rightarrow> error + writer_call" where
  "save_font self path =
     (case font_attr self of
        None \<Rightarrow> Inl (ValueError ''Font not created. Call create_font() first.'')
      | Some f \<Rightarrow> Inr \<lparr>written_font = f, output_path = path\<rparr>)"

section \<open>Notions of the specification\<close>

text \<open>
  The ink pixels of a cell in reading order (rows from the top, columns from the left),
  their number, and the square the specification assigns to the pixel in column \<open>x\<close> of
  row \<open>y\<close>: corners from \<open>(x*128, (7-y)*128)\<close> to \<open>((x+1)*128, (8-y)*128)\<close>.
\<close>

definition ink_positions :: "raster_cell \<Rightarrow> (nat \<times> nat) list" where
  "ink_positions c =
     concat (map (\<lambda>y. map (\<lambda>x. (x, y))
       (filter (\<lambda>x. \<not> is_background (pixel_at c y x)) [0..<width c])) [0..<height c])"

definition ink_count :: "raster_cell \<Rightarrow> nat" where
  "ink_count c =
     card {(x, y). x < width c \<and> y < height c \<and> \<not> is_background (pixel_at c y x)}"

definition square_path :: "nat \<times> nat \<Rightarrow> point list" where
  "square_path p =
     (case p of (x, y) \<Rightarrow>
        [(int x * 128, (7 - int y) * 128), ((int x + 1) * 128, (7 - int y) * 128),
         ((int x + 1) * 128, (8 - int y) * 128), (int x * 128, (8 - int y) * 128)])"

text \<open>The degenerate path of an empty cell: it has no extent, its only point is the origin.\<close>

definition degenerate_path :: "point list" where
  "degenerate_path = [(0, 0)]"

text \<open>
  The primary code as the mapping rules 3 and 4 of the specification word it, for a base
  and an original position.
\<close>

definition mapper_primary :: "int \<Rightarrow> int \<Rightarrow> int" where
  "mapper_primary base pos =
     (let primary = (if base \<in> {97..122} then base else base - 32)
      in if pos \<in> {32..63} then 62 + (pos - 32) else primary)"

text \<open>The set of codes one loop iteration assigns.\<close>

definition glyph_codes :: "nat \<Rightarrow> int set" where
  "glyph_codes i =
     {ascii_value i}
     \<union> (if ascii_value i \<ge> 97 \<and> ascii_value i \<le> 122 then {ascii_value i - 32} else {})
     \<union> (if original_pos i > 61 then {ascii_value i + 128, 0xE000 + (original_pos i - 32)} else {})"

text \<open>Cells used as concrete inputs: all background, and one with a single ink pixel.\<close>

definition blank_cell :: raster_cell where
  "blank_cell = \<lparr>height = 8, width = 8, pixel_at = (\<lambda>y x. (0x9F, 0x5B, 0x53))\<rparr>"

definition dot_cell :: raster_cell where
  "dot_cell = \<lparr>height = 8, width = 8,
     pixel_at = (\<lambda>y x. if y = 2 \<and> x = 3 then (0, 0, 0) else (0x9F, 0x5B, 0x53))\<rparr>"

text \<open>
  A font object whose tables disagree: one glyph in the glyph order, no metrics entry,
  and a character map entry naming a glyph that the glyph order does not have.
\<close>

definition inconsistent_font :: font where
  "inconsistent_font =
     TTFont\<lparr>glyph_order := [''.notdef''], cmap := Map.empty(65 \<mapsto> ''glyph00001'')\<rparr>"

section \<open>Arithmetic of the mapping\<close>

lemma base_ascii_eq: "base_ascii i = 32 + int i"
  by (simp add: base_ascii_def)

lemma original_pos_eq: "original_pos i = 64 + int i"
  by (simp add: original_pos_def base_ascii_def)

lemma ascii_value_eq: "ascii_value i = (if 65 \<le> i \<and> i \<le> 90 then 32 + int i else int i)"
  by (simp add: ascii_value_def primary_code_def original_pos_eq base_ascii_eq Let_def)

section \<open>Glyph names are distinct\<close>

lemma digit_val_digit_char: "d < 10 \<Longrightarrow> digit_val (digit_char d) = d"
proof -
  assume "d < 10"
  then have "d \<in> {0,1,2,3,4,5,6,7,8,9}" by auto
  then show ?thesis
    by (auto simp: digit_val_def digit_char_def)
qed

lemma read_decimal_snoc: "read_decimal (s @ [c]) = 10 * read_decimal s + digit_val c"
  by (simp add: read_decimal_def)

lemma read_decimal_decimal: "read_decimal (decimal n) = n"
proof (induction n rule: decimal.induct)
  case (1 n)
  show ?case
  proof (cases "n < 10")
    case True
    then show ?thesis
      by (subst decimal.simps) (simp add: read_decimal_def digit_val_digit_char)
  next
    case False
    with 1 have "read_decimal (decimal (n div 10)) = n div 10" by simp
    with False show ?thesis
      by (subst decimal.simps) (simp add: read_decimal_snoc digit_val_digit_char)
  qed
qed

lemma read_decimal_zeros: "read_decimal (replicate k (CHR ''0'') @ s) = read_decimal s"
  by (induction k) (simp_all add: read_decimal_def digit_val_def del: fold_replicate)

lemma read_decimal_fmt: "read_decimal (fmt_05d n) = n"
  by (simp add: fmt_05d_def read_decimal_zeros read_decimal_decimal)

lemma glyph_name_inj: "glyph_name i = glyph_name j \<Longrightarrow> i = j"
proof -
  assume "glyph_name i = glyph_name j"
  then have "fmt_05d (i + 1) = fmt_05d (j + 1)" by (simp add: glyph_name_def)
  then have "read_decimal (fmt_05d (i + 1)) = read_decimal (fmt_05d (j + 1))" by simp
  then show "i = j" by (simp add: read_decimal_fmt)
qed

lemma glyph_name_eq_iff: "glyph_name i = glyph_name j \<longleftrightarrow> i = j"
  using glyph_name_inj by blast

lemma glyph_name_not_notdef: "glyph_name i \<noteq> ''.notdef''"
  by (simp add: glyph_name_def)

section \<open>The character map through the glyph loop\<close>

lemma cmap_step_apply:
  "cmap_step i nm cm c = (if c \<in> glyph_codes i then Some nm else cm c)"
  by (auto simp: cmap_step_def glyph_codes_def Let_def)

lemma glyph_codes_eq:
  "glyph_codes i =
     (if 65 \<le> i \<and> i \<le> 90 then {32 + int i, int i, 160 + int i, 57376 + int i}
      else if 97 \<le> i \<and> i \<le> 122 then {int i, int i - 32, 128 + int i, 57376 + int i}
      else {int i, 128 + int i, 57376 + int i})"
  by (auto simp: glyph_codes_def ascii_value_eq original_pos_eq)

lemma glyph_loop_Nil: "glyph_loop [] f = f"
  by (simp add: glyph_loop_def)

lemma glyph_loop_snoc:
  "glyph_loop (cs @ [c]) f = glyph_step (length cs) c (glyph_loop cs f)"
  by (simp add: glyph_loop_def enumerate_append_eq)

lemma cmap_glyph_step: "cmap (glyph_step i c f) = cmap_step i (glyph_name i) (cmap f)"
  by (simp add: glyph_step_def Let_def)

lemma metrics_glyph_step:
  "metrics (glyph_step i c f) = (metrics f)(glyph_name i \<mapsto> (char_width * scale, 0))"
  by (simp add: glyph_step_def Let_def)

lemma glyphs_glyph_step:
  "glyphs (glyph_step i c f) = (glyphs f)(glyph_name i \<mapsto> glyph_outline c)"
  by (simp add: glyph_step_def Let_def)

lemma frame_glyph_step:
  "glyph_order (glyph_step i c f) = glyph_order f"
  "numGlyphs (glyph_step i c f) = numGlyphs f"
  "numberOfHMetrics (glyph_step i c f) = numberOfHMetrics f"
  by (simp_all add: glyph_step_def Let_def)

lemma frame_glyph_loop:
  "glyph_order (glyph_loop cs f) = glyph_order f \<and>
   numGlyphs (glyph_loop cs f) = numGlyphs f \<and>
   numberOfHMetrics (glyph_loop cs f) = numberOfHMetrics f"
  by (induction cs rule: rev_induct) (simp_all add: glyph_loop_Nil glyph_loop_snoc frame_glyph_step)

text \<open>Last write wins.\<close>

lemma cmap_loop_last_writer:
  "k < length cs \<Longrightarrow> code \<in> glyph_codes k \<Longrightarrow>
   (\<forall>j. k < j \<and> j < length cs \<longrightarrow> code \<notin> glyph_codes j) \<Longrightarrow>
   cmap (glyph_loop cs f) code = Some (glyph_name k)"
proof (induction cs rule: rev_induct)
  case Nil
  then show ?case by simp
next
  case (snoc c cs)
  show ?case
  proof (cases "k = length cs")
    case True
    with snoc.prems show ?thesis
      by (simp add: glyph_loop_snoc cmap_glyph_step cmap_step_apply)
  next
    case False
    with snoc.prems have k: "k < length cs" by simp
    from snoc.prems k have notlast: "code \<notin> glyph_codes (length cs)" by simp
    from snoc.prems have "\<forall>j. k < j \<and> j < length cs \<longrightarrow> code \<notin> glyph_codes j" by simp
    with snoc.IH k snoc.prems(2) have "cmap (glyph_loop cs f) code = Some (glyph_name k)"
      by blast
    with notlast show ?thesis
      by (simp add: glyph_loop_snoc cmap_glyph_step cmap_step_apply)
  qed
qed

lemma cmap_loop_untouched:
  "(\<forall>j. j < length cs \<longrightarrow> code \<notin> glyph_codes j) \<Longrightarrow>
   cmap (glyph_loop cs f) code = cmap f code"
  by (induction cs rule: rev_induct)
     (simp_all add: glyph_loop_Nil glyph_loop_snoc cmap_glyph_step cmap_step_apply)

lemma cmap_loop_range:
  "cmap (glyph_loop cs f) code = Some nm \<Longrightarrow>
   cmap f code = Some nm \<or> (\<exists>k. k < length cs \<and> nm = glyph_name k \<and> code \<in> glyph_codes k)"
proof (induction cs arbitrary: nm rule: rev_induct)
  case Nil
  then show ?case by (simp add: glyph_loop_Nil)
next
  case (snoc c cs)
  show ?case
  proof (cases "code \<in> glyph_codes (length cs)")
    case True
    with snoc.prems have "nm = glyph_name (length cs)"
      by (simp add: glyph_loop_snoc cmap_glyph_step cmap_step_apply)
    with True show ?thesis by auto
  next
    case False
    with snoc.prems have "cmap (glyph_loop cs f) code = Some nm"
      by (simp add: glyph_loop_snoc cmap_glyph_step cmap_step_apply)
    from snoc.IH [OF this] show ?thesis
      by (auto simp: less_Suc_eq)
  qed
qed

lemma metrics_glyph_loop:
  "metrics (glyph_loop cs f) nm =
     (if nm \<in> glyph_name ` {..<length cs} then Some (char_width * scale, 0) else metrics f nm)"
  by (induction cs rule: rev_induct)
     (auto simp: glyph_loop_Nil glyph_loop_snoc metrics_glyph_step lessThan_Suc)

lemma glyphs_glyph_loop:
  "i < length cs \<Longrightarrow> glyphs (glyph_loop cs f) (glyph_name i) = Some (glyph_outline (cs ! i))"
proof (induction cs rule: rev_induct)
  case Nil
  then show ?case by simp
next
  case (snoc c cs)
  then show ?case
    by (auto simp: glyph_loop_snoc glyphs_glyph_step glyph_name_eq_iff nth_append less_Suc_eq)
qed

lemma glyphs_glyph_loop_other:
  "nm \<notin> glyph_name ` {..<length cs} \<Longrightarrow> glyphs (glyph_loop cs f) nm = glyphs f nm"
  by (induction cs rule: rev_induct)
     (auto simp: glyph_loop_Nil glyph_loop_snoc glyphs_glyph_step lessThan_Suc)

lemma dom_glyphs_glyph_loop:
  "dom (glyphs (glyph_loop cs f)) = dom (glyphs f) \<union> glyph_name ` {..<length cs}"
proof -
  have "nm \<in> dom (glyphs (glyph_loop cs f)) \<longleftrightarrow>
        nm \<in> dom (glyphs f) \<union> glyph_name ` {..<length cs}" for nm
  proof (cases "nm \<in> glyph_name ` {..<length cs}")
    case True
    then obtain i where "i < length cs" "nm = glyph_name i" by auto
    then show ?thesis by (auto simp: glyphs_glyph_loop)
  next
    case False
    then show ?thesis by (simp add: glyphs_glyph_loop_other dom_def)
  qed
  then show ?thesis by blast
qed

lemma dom_metrics_glyph_loop:
  "dom (metrics (glyph_loop cs f)) = dom (metrics f) \<union> glyph_name ` {..<length cs}"
  by (auto simp: dom_def metrics_glyph_loop)

section \<open>The outline of one cell\<close>

lemma draw_pixel_ink:
  "\<not> is_background (pixel_at c y x) \<Longrightarrow>
   draw_pixel c y x (pn, hp, n) =
     (\<lparr>current = [], contours = contours pn @ [square_path (x, y)]\<rparr>, True, Suc n)"
  by (simp add: draw_pixel_def Let_def moveTo_def lineTo_def closePath_def square_path_def
      scale_def units_per_em_def)

lemma draw_pixel_background:
  "is_background (pixel_at c y x) \<Longrightarrow> draw_pixel c y x st = st"
  by (simp add: draw_pixel_def split: prod.splits)

lemma draw_row:
  "current pn = [] \<Longrightarrow>
   fold (\<lambda>x. draw_pixel c y x) xs (pn, hp, n) =
     (\<lparr>current = [],
       contours = contours pn @
         map (\<lambda>x. square_path (x, y)) (filter (\<lambda>x. \<not> is_background (pixel_at c y x)) xs)\<rparr>,
      hp \<or> filter (\<lambda>x. \<not> is_background (pixel_at c y x)) xs \<noteq> [],
      n + length (filter (\<lambda>x. \<not> is_background (pixel_at c y x)) xs))"
proof (induction xs arbitrary: pn hp n)
  case Nil
  then show ?case by simp
next
  case (Cons x xs)
  show ?case
  proof (cases "is_background (pixel_at c y x)")
    case True
    with Cons show ?thesis by (simp add: draw_pixel_background)
  next
    case False
    with Cons.IH [of "\<lparr>current = [], contours = contours pn @ [square_path (x, y)]\<rparr>" True "Suc n"]
    show ?thesis by (simp add: draw_pixel_ink)
  qed
qed

lemma draw_rows:
  "current pn = [] \<Longrightarrow>
   fold (\<lambda>y. fold (\<lambda>x. draw_pixel c y x) xs) ys (pn, hp, n) =
     (\<lparr>current = [],
       contours = contours pn @ map square_path (concat (map (\<lambda>y. map (\<lambda>x. (x, y))
         (filter (\<lambda>x. \<not> is_background (pixel_at c y x)) xs)) ys))\<rparr>,
      hp \<or> concat (map (\<lambda>y. map (\<lambda>x. (x, y))
         (filter (\<lambda>x. \<not> is_background (pixel_at c y x)) xs)) ys) \<noteq> [],
      n + length (concat (map (\<lambda>y. map (\<lambda>x. (x, y))
         (filter (\<lambda>x. \<not> is_background (pixel_at c y x)) xs)) ys)))"
proof (induction ys arbitrary: pn hp n)
  case Nil
  then show ?case by simp
next
  case (Cons y ys)
  show ?case
    by (simp add: draw_row [OF Cons.prems] Cons.IH comp_def)
qed

lemma draw_cell_eq:
  "draw_cell c =
     (\<lparr>current = [], contours = map square_path (ink_positions c)\<rparr>,
      ink_positions c \<noteq> [], length (ink_positions c))"
  unfolding draw_cell_def ink_positions_def
  by (subst draw_rows) (simp_all add: TTGlyphPen_def)

lemma set_ink_positions:
  "set (ink_positions c) =
     {(x, y). x < width c \<and> y < height c \<and> \<not> is_background (pixel_at c y x)}"
  by (auto simp: ink_positions_def)

lemma distinct_positions:
  "distinct ys \<Longrightarrow> distinct xs \<Longrightarrow>
   distinct (concat (map (\<lambda>y. map (\<lambda>x. (x, y)) (filter (P y) xs)) ys))"
  by (induction ys) (auto simp: distinct_map inj_on_def)

lemma distinct_ink_positions: "distinct (ink_positions c)"
  unfolding ink_positions_def by (rule distinct_positions) simp_all

lemma ink_count_length: "ink_count c = length (ink_positions c)"
  unfolding ink_count_def set_ink_positions [symmetric]
  by (rule distinct_card [OF distinct_ink_positions])

lemma glyph_outline_eq:
  "glyph_outline c =
     (if ink_positions c = [] then [degenerate_path] else map square_path (ink_positions c))"
  by (simp add: glyph_outline_def draw_cell_eq glyph_def empty_glyph_pen_def closePath_def
      lineTo_def moveTo_def TTGlyphPen_def degenerate_path_def)

section \<open>The font that \<open>create_font\<close> returns\<close>

lemma cmap_create_font:
  "cmap (create_font cs) code =
     (if code = 32 then Some (glyph_name (length cs))
      else cmap (glyph_loop cs (TTFont\<lparr>cmap := Map.empty(0 \<mapsto> ''.notdef'')\<rparr>)) code)"
proof -
  have untouched: "cmap (glyph_loop cs f) code = cmap (glyph_loop cs g) code"
    if "cmap f = cmap g" for f g
    using that
    by (induction cs rule: rev_induct)
       (simp_all add: glyph_loop_Nil glyph_loop_snoc cmap_glyph_step cmap_step_apply)
  show ?thesis
    unfolding create_font_def create_glyphs_def Let_def
    by (simp add: untouched create_glyf_table_def create_cmap_table_def create_hmtx_table_def
        create_maxp_table_def create_hhea_table_def)
qed

lemma cmap_create_font_last_writer:
  assumes "k < length cs" and "code \<in> glyph_codes k" and "code \<noteq> 32"
    and "\<forall>j. k < j \<and> j < length cs \<longrightarrow> code \<notin> glyph_codes j"
  shows "cmap (create_font cs) code = Some (glyph_name k)"
  using assms by (simp add: cmap_create_font cmap_loop_last_writer)

lemma cmap_create_font_range:
  assumes "cmap (create_font cs) code = Some nm"
  shows "(code = 32 \<and> nm = glyph_name (length cs)) \<or> (code = 0 \<and> nm = ''.notdef'') \<or>
         (\<exists>k. k < length cs \<and> nm = glyph_name k \<and> code \<in> glyph_codes k)"
proof (cases "code = 32")
  case True
  with assms show ?thesis by (simp add: cmap_create_font)
next
  case False
  with assms have "cmap (glyph_loop cs (TTFont\<lparr>cmap := Map.empty(0 \<mapsto> ''.notdef'')\<rparr>)) code = Some nm"
    by (simp add: cmap_create_font)
  from cmap_loop_range [OF this] show ?thesis
    by (auto split: if_splits)
qed

lemma metrics_create_font:
  "metrics (create_font cs) nm =
     (if nm = ''.notdef'' \<or> nm \<in> glyph_name ` {..length cs} then Some (1024, 0) else None)"
  unfolding create_font_def create_glyphs_def Let_def
  by (auto simp: metrics_glyph_loop create_glyf_table_def create_cmap_table_def
      create_hmtx_table_def create_maxp_table_def create_hhea_table_def char_width_def scale_def
      units_per_em_def TTFont_def atMost_def lessThan_def le_less)

lemma glyphs_create_font:
  "i < length cs \<Longrightarrow> glyphs (create_font cs) (glyph_name i) = Some (glyph_outline (cs ! i))"
  unfolding create_font_def create_glyphs_def Let_def
  by (simp add: glyphs_glyph_loop glyph_name_eq_iff)

lemma dom_glyphs_create_font:
  "dom (glyphs (create_font cs)) = insert ''.notdef'' (glyph_name ` {..length cs})"
  unfolding create_font_def create_glyphs_def Let_def
  by (auto simp: dom_glyphs_glyph_loop create_glyf_table_def atMost_def lessThan_def le_less)

lemma glyph_order_create_font: "glyph_order (create_font cs) = glyph_names cs"
  unfolding create_font_def create_glyphs_def Let_def
  by (simp add: frame_glyph_loop create_glyf_table_def create_cmap_table_def
      create_hmtx_table_def create_maxp_table_def create_hhea_table_def)

lemma counts_create_font:
  "numGlyphs (create_font cs) = length cs + 2 \<and> numberOfHMetrics (create_font cs) = length cs + 2"
  unfolding create_font_def create_glyphs_def Let_def
  by (simp add: frame_glyph_loop create_glyf_table_def create_cmap_table_def
      create_hmtx_table_def create_maxp_table_def create_hhea_table_def glyph_names_def)

lemma set_glyph_names: "set (glyph_names cs) = insert ''.notdef'' (glyph_name ` {..length cs})"
  by (auto simp: glyph_names_def atMost_def le_less)

lemma distinct_glyph_names: "distinct (glyph_names cs)"
  by (auto simp: glyph_names_def distinct_map inj_on_def glyph_name_eq_iff glyph_name_not_notdef
      dest: glyph_name_not_notdef [symmetric, THEN notE])

section \<open>Claims about the code point mapping\<close>

lemma glyph_name_values:
  "glyph_name 0 = ''glyph00001''" "glyph_name 1 = ''glyph00002''"
  "glyph_name 65 = ''glyph00066''" "glyph_name (Suc 0) = ''glyph00002''"
  by code_simp+

text \<open>
  C1. The claim: in the final character map code 0 resolves to \<open>.notdef\<close>, for every
  run. \<open>_create_cmap_table\<close> does enter \<open>.notdef\<close> at code 0, and with no characters the
  entry stays. With at least one character the first loop iteration has base 32, hence
  primary code \<open>32 - 32 = 0\<close>, and assigns code 0 to the first content glyph; no later
  assignment touches code 0 again. The final map then has \<open>glyph00001\<close> at code 0.
\<close>

theorem notdef_entry_overwritten:
  "cmap (create_font []) 0 = Some ''.notdef'' \<and>
   cmap (create_font (c # cs)) 0 = Some ''glyph00001''"
proof -
  have "cmap (create_font []) 0 = Some ''.notdef''"
    by (simp add: cmap_create_font glyph_loop_Nil)
  moreover have "cmap (create_font (c # cs)) 0 = Some (glyph_name 0)"
    by (rule cmap_create_font_last_writer) (auto simp: glyph_codes_eq)
  ultimately show ?thesis by (simp add: glyph_name_values)
qed

text \<open>
  C2. The claim: for glyph index 0 the original position is 32 and the primary code is
  62. Neither holds: the original position of index 0 is 64 and its primary code is not
  62.
\<close>

theorem first_glyph_code_not_62:
  "original_pos 0 \<noteq> 32 \<and> ascii_value 0 \<noteq> 62"
  by (simp add: original_pos_eq ascii_value_eq)

text \<open>
  C2, amended. For glyph index 0 the base is 32 and the original position is 64, outside
  the range 32 to 63, so the override is not applied and the primary code is the base
  minus 32. The value 62 is what the override formula gives at original position 32, and
  no glyph index has original position 32.
\<close>

theorem first_glyph_primary:
  "original_pos 0 = 64 \<and> \<not> (original_pos 0 \<ge> 32 \<and> original_pos 0 \<le> 63) \<and>
   ascii_value 0 = base_ascii 0 - 32 \<and> remap_target 32 = 62 \<and>
   (\<forall>i. original_pos i \<noteq> 32)"
  by (simp add: original_pos_eq ascii_value_eq base_ascii_eq remap_target_def)

text \<open>
  C3. For every content glyph index \<open>i\<close> the loop computes base \<open>33 + i - 1\<close> and
  original position \<open>base + 32\<close>, and from these two the primary code by the mapping
  rules: for every base and every original position, the code is the base when the base
  is in 97 to 122 and the base minus 32 otherwise, and it is overridden by
  \<open>62 + (original_pos - 32)\<close> whenever the original position is in 32 to 63 (so 62 at
  position 32 and 93 at position 63). The loop iteration assigns the code so computed to
  the glyph's name.
\<close>

theorem primary_code_rule:
  "base_ascii i = 33 + int i - 1 \<and> original_pos i = base_ascii i + 32 \<and>
   ascii_value i = primary_code (base_ascii i) (original_pos i) \<and>
   ascii_value i = mapper_primary (33 + int i - 1) (33 + int i - 1 + 32) \<and>
   primary_code base pos = mapper_primary base pos \<and>
   primary_code base pos =
     (if 32 \<le> pos \<and> pos \<le> 63 then 62 + (pos - 32)
      else if 97 \<le> base \<and> base \<le> 122 then base else base - 32) \<and>
   primary_code 0 32 = 62 \<and> primary_code 31 63 = 93 \<and>
   primary_code 97 129 = 97 \<and> primary_code 96 128 = 64 \<and>
   cmap (glyph_step i c f) (primary_code (base_ascii i) (original_pos i)) = Some (glyph_name i)"
proof -
  have rule: "primary_code b p = mapper_primary b p" for b p
    by (simp add: primary_code_def mapper_primary_def remap_target_def Let_def)
  have expl: "primary_code b p =
     (if 32 \<le> p \<and> p \<le> 63 then 62 + (p - 32)
      else if 97 \<le> b \<and> b \<le> 122 then b else b - 32)" for b p
    by (simp add: primary_code_def remap_target_def Let_def)
  have locals: "base_ascii i = 33 + int i - 1 \<and> original_pos i = base_ascii i + 32"
    by (simp add: base_ascii_def original_pos_def)
  have av: "ascii_value i = primary_code (base_ascii i) (original_pos i)"
    by (simp add: ascii_value_def)
  have spec: "ascii_value i = mapper_primary (33 + int i - 1) (33 + int i - 1 + 32)"
    by (simp add: ascii_value_def rule base_ascii_def original_pos_def)
  have "ascii_value i \<in> glyph_codes i" by (simp add: glyph_codes_def)
  then have "cmap (glyph_step i c f) (ascii_value i) = Some (glyph_name i)"
    by (simp add: cmap_glyph_step cmap_step_apply)
  then have assigned:
    "cmap (glyph_step i c f) (primary_code (base_ascii i) (original_pos i)) = Some (glyph_name i)"
    by (simp add: av)
  have samples: "primary_code 0 32 = 62 \<and> primary_code 31 63 = 93 \<and>
      primary_code 97 129 = 97 \<and> primary_code 96 128 = 64"
    by (simp add: expl)
  from locals av spec rule [of base pos] expl [of base pos] samples assigned
  show ?thesis by blast
qed

text \<open>
  C5. For every character list, code 32 resolves in the final character map to the
  trailing glyph (the one named after the position one past the last character), and no
  other code resolves to it.
\<close>

theorem space_glyph_only_code_32:
  "cmap (create_font cs) 32 = Some (glyph_name (length cs)) \<and>
   (\<forall>code. cmap (create_font cs) code = Some (glyph_name (length cs)) \<longrightarrow> code = 32)"
proof (intro conjI allI impI)
  show "cmap (create_font cs) 32 = Some (glyph_name (length cs))"
    by (simp add: cmap_create_font)
next
  fix code
  assume "cmap (create_font cs) code = Some (glyph_name (length cs))"
  from cmap_create_font_range [OF this] show "code = 32"
    by (auto simp: glyph_name_eq_iff glyph_name_not_notdef)
qed

theorem space_glyph_only_code_32_witness:
  "cmap (create_font [blank_cell]) 32 = Some ''glyph00002'' \<and>
   cmap (create_font [blank_cell]) 0 \<noteq> Some ''glyph00002''"
  using space_glyph_only_code_32 [of "[blank_cell]"]
  by (auto simp: glyph_name_values)

text \<open>
  C10. For every content glyph index \<open>i\<close> the original position is \<open>64 + i\<close>, so at
  least 64: the override branch for positions 32 to 63 is never taken and the primary
  code is decided by the base alone; the branch for positions above 61 is always taken,
  so every iteration also assigns the primary code plus 128 and the Private Use Area code.
\<close>

theorem override_branch_unreachable:
  "original_pos i = 64 + int i \<and> original_pos i \<ge> 64 \<and>
   \<not> (original_pos i \<ge> 32 \<and> original_pos i \<le> 63) \<and>
   ascii_value i =
     (if base_ascii i \<ge> 97 \<and> base_ascii i \<le> 122 then base_ascii i else base_ascii i - 32) \<and>
   original_pos i > 61 \<and>
   cmap_step i nm cm (ascii_value i + 128) = Some nm \<and>
   cmap_step i nm cm (0xE000 + (original_pos i - 32)) = Some nm"
  by (simp add: original_pos_eq ascii_value_def primary_code_def base_ascii_eq cmap_step_def
      Let_def)

lemma glyph_codes_mem:
  "code \<in> glyph_codes j \<longleftrightarrow>
     code = ascii_value j \<or> (97 \<le> j \<and> j \<le> 122 \<and> code = int j - 32) \<or>
     (65 \<le> j \<and> j \<le> 90 \<and> code = int j) \<or>
     code = ascii_value j + 128 \<or> code = 57376 + int j"
  by (auto simp: glyph_codes_eq ascii_value_eq)


lemma no_later_writer_97:
  assumes "code \<in> glyph_codes i" and "i < j" and "j < 97"
  shows "code \<notin> glyph_codes j"
proof -
  have "code = ascii_value i \<or> code = int i \<or> code = ascii_value i + 128 \<or> code = 57376 + int i"
    using assms(1,2,3) by (auto simp: glyph_codes_mem)
  moreover have "ascii_value i \<le> 122 \<and> 0 \<le> ascii_value i" using assms(2,3) by (simp add: ascii_value_eq)
  ultimately show ?thesis
    using assms(2,3) by (auto simp: glyph_codes_mem ascii_value_eq split: if_splits)
qed

lemma lowercase_index:
  assumes "97 \<le> ascii_value i" and "ascii_value i \<le> 122"
  shows "(65 \<le> i \<and> i \<le> 90 \<and> ascii_value i = 32 + int i) \<or>
         (97 \<le> i \<and> i \<le> 122 \<and> ascii_value i = int i)"
  using assms by (simp add: ascii_value_eq split: if_splits)

lemma pair_not_later_high:
  assumes "97 \<le> k" and "k \<le> 122" and "k < j"
  shows "int k \<notin> glyph_codes j \<and> int k - 32 \<notin> glyph_codes j"
  using assms by (simp add: glyph_codes_mem ascii_value_eq)

lemma pair_not_later_low:
  assumes "65 \<le> i" and "i \<le> 90" and "i < j" and "j < i + 32"
  shows "32 + int i \<notin> glyph_codes j \<and> int i \<notin> glyph_codes j"
  using assms by (simp add: glyph_codes_mem ascii_value_eq)

text \<open>
  C4. The claim: for every content glyph (all have original position above 61) the final
  character map resolves the primary code, the primary code plus 128 and the Private
  Use Area code to the glyph's name. The glyph at index 32 of a list of 33 cells has
  primary code 32, and the last assignment of the run gives code 32 to the trailing
  space glyph.
\<close>

theorem glyph_32_primary_taken_by_space:
  "32 < length (replicate 33 blank_cell) \<and> original_pos 32 > 61 \<and>
   cmap (create_font (replicate 33 blank_cell)) (ascii_value 32) \<noteq> Some (glyph_name 32)"
  by (simp add: original_pos_eq ascii_value_eq cmap_create_font glyph_name_eq_iff)

text \<open>
  C4, amended. For every content glyph of a list of at most 97 cells the primary code,
  the primary code plus 128 and the Private Use Area code \<open>0xE000 + (original_pos - 32)\<close>
  are three different codes; the final character map resolves the latter two to the
  glyph's name, and the primary code too, except for index 32, whose primary code 32
  resolves to the trailing space glyph. (From index 97 on a later glyph assigns codes of
  an earlier one, and the last assignment wins.)
\<close>

theorem three_codes_resolve:
  assumes "i < length cs" and "length cs \<le> 97"
  shows "ascii_value i \<noteq> ascii_value i + 128 \<and>
         ascii_value i \<noteq> 0xE000 + (original_pos i - 32) \<and>
         ascii_value i + 128 \<noteq> 0xE000 + (original_pos i - 32) \<and>
         cmap (create_font cs) (ascii_value i + 128) = Some (glyph_name i) \<and>
         cmap (create_font cs) (0xE000 + (original_pos i - 32)) = Some (glyph_name i) \<and>
         cmap (create_font cs) (ascii_value i) = Some (glyph_name (if i = 32 then length cs else i))"
proof -
  have later: "\<forall>j. i < j \<and> j < length cs \<longrightarrow> code \<notin> glyph_codes j"
    if "code \<in> glyph_codes i" for code
    using that assms(2) no_later_writer_97 [of code i] by auto
  have mem: "ascii_value i + 128 \<in> glyph_codes i" "0xE000 + (original_pos i - 32) \<in> glyph_codes i"
    "ascii_value i \<in> glyph_codes i"
    by (simp_all add: glyph_codes_def original_pos_eq)
  have ne: "ascii_value i + 128 \<noteq> 32" "0xE000 + (original_pos i - 32) \<noteq> 32"
    by (simp_all add: ascii_value_eq original_pos_eq)
  have ext: "cmap (create_font cs) (ascii_value i + 128) = Some (glyph_name i)"
    by (rule cmap_create_font_last_writer [OF assms(1) mem(1) ne(1) later [OF mem(1)]])
  have pua: "cmap (create_font cs) (0xE000 + (original_pos i - 32)) = Some (glyph_name i)"
    by (rule cmap_create_font_last_writer [OF assms(1) mem(2) ne(2) later [OF mem(2)]])
  have prim: "cmap (create_font cs) (ascii_value i) = Some (glyph_name (if i = 32 then length cs else i))"
  proof (cases "i = 32")
    case True
    then show ?thesis by (simp add: ascii_value_eq cmap_create_font)
  next
    case False
    then have "ascii_value i \<noteq> 32" by (simp add: ascii_value_eq)
    from cmap_create_font_last_writer [OF assms(1) mem(3) this later [OF mem(3)]] False
    show ?thesis by simp
  qed
  have distinct: "ascii_value i \<noteq> ascii_value i + 128 \<and>
         ascii_value i \<noteq> 0xE000 + (original_pos i - 32) \<and>
         ascii_value i + 128 \<noteq> 0xE000 + (original_pos i - 32)"
    by (simp add: original_pos_eq ascii_value_eq)
  from distinct ext pua prim show ?thesis by blast
qed

theorem three_codes_resolve_witness:
  "cmap (create_font [blank_cell, dot_cell]) 1 = Some ''glyph00002'' \<and>
   cmap (create_font [blank_cell, dot_cell]) 129 = Some ''glyph00002'' \<and>
   cmap (create_font [blank_cell, dot_cell]) 0xE021 = Some ''glyph00002''"
  using three_codes_resolve [of 1 "[blank_cell, dot_cell]"]
  by (simp add: original_pos_eq ascii_value_eq glyph_name_values)

text \<open>
  C6. For every content glyph whose primary code is in 97 to 122, the loop iteration
  also assigns the code 32 below it to the same glyph, and in the final character map
  the lowercase and the uppercase code resolve to one and the same glyph name. That name
  is the glyph's own unless the list also holds the glyph 32 positions later (indices 65
  to 90 against 97 to 122), which assigns the same two codes afterwards.
\<close>

theorem case_duplication:
  assumes "i < length cs" and "97 \<le> ascii_value i" and "ascii_value i \<le> 122"
  shows "cmap (glyph_step i (cs ! i) f) (ascii_value i - 32) = Some (glyph_name i) \<and>
         cmap (glyph_step i (cs ! i) f) (ascii_value i) = Some (glyph_name i) \<and>
         cmap (create_font cs) (ascii_value i - 32) = cmap (create_font cs) (ascii_value i) \<and>
         cmap (create_font cs) (ascii_value i) =
           Some (glyph_name (if i \<le> 90 \<and> i + 32 < length cs then i + 32 else i))"
proof -
  let ?k = "if i \<le> 90 \<and> i + 32 < length cs then i + 32 else i"
  have step: "cmap (glyph_step i (cs ! i) f) (ascii_value i - 32) = Some (glyph_name i) \<and>
              cmap (glyph_step i (cs ! i) f) (ascii_value i) = Some (glyph_name i)"
    using assms(2,3) by (simp add: cmap_glyph_step cmap_step_apply glyph_codes_def)
  have ne: "ascii_value i \<noteq> 32" "ascii_value i - 32 \<noteq> 32" using assms(2) by simp_all
  have final: "cmap (create_font cs) (ascii_value i) = Some (glyph_name ?k) \<and>
               cmap (create_font cs) (ascii_value i - 32) = Some (glyph_name ?k)"
  proof (cases "i \<le> 90")
    case True
    with lowercase_index [OF assms(2,3)] have i: "65 \<le> i" "i \<le> 90" "ascii_value i = 32 + int i"
      by auto
    show ?thesis
    proof (cases "i + 32 < length cs")
      case True
      have mem: "ascii_value i \<in> glyph_codes (i + 32)" "ascii_value i - 32 \<in> glyph_codes (i + 32)"
        using i by (simp_all add: glyph_codes_mem ascii_value_eq)
      have later: "\<forall>j. i + 32 < j \<and> j < length cs \<longrightarrow> ascii_value i \<notin> glyph_codes j"
        "\<forall>j. i + 32 < j \<and> j < length cs \<longrightarrow> ascii_value i - 32 \<notin> glyph_codes j"
        using i pair_not_later_high [of "i + 32"] by (auto simp: int_ops add.commute)
      from cmap_create_font_last_writer [OF True mem(1) ne(1) later(1)]
        cmap_create_font_last_writer [OF True mem(2) ne(2) later(2)] True i
      show ?thesis by simp
    next
      case False
      have mem: "ascii_value i \<in> glyph_codes i" "ascii_value i - 32 \<in> glyph_codes i"
        using i by (simp_all add: glyph_codes_mem ascii_value_eq)
      have later: "\<forall>j. i < j \<and> j < length cs \<longrightarrow> ascii_value i \<notin> glyph_codes j"
        "\<forall>j. i < j \<and> j < length cs \<longrightarrow> ascii_value i - 32 \<notin> glyph_codes j"
        using i False pair_not_later_low [of i] by auto
      from cmap_create_font_last_writer [OF assms(1) mem(1) ne(1) later(1)]
        cmap_create_font_last_writer [OF assms(1) mem(2) ne(2) later(2)] False
      show ?thesis by simp
    qed
  next
    case False
    with lowercase_index [OF assms(2,3)] have i: "97 \<le> i" "i \<le> 122" "ascii_value i = int i"
      by auto
    have mem: "ascii_value i \<in> glyph_codes i" "ascii_value i - 32 \<in> glyph_codes i"
      using i by (simp_all add: glyph_codes_mem ascii_value_eq)
    have later: "\<forall>j. i < j \<and> j < length cs \<longrightarrow> ascii_value i \<notin> glyph_codes j"
      "\<forall>j. i < j \<and> j < length cs \<longrightarrow> ascii_value i - 32 \<notin> glyph_codes j"
      using i pair_not_later_high [of i] by auto
    from cmap_create_font_last_writer [OF assms(1) mem(1) ne(1) later(1)]
      cmap_create_font_last_writer [OF assms(1) mem(2) ne(2) later(2)] False
    show ?thesis by simp
  qed
  from step final show ?thesis by simp
qed

theorem case_duplication_witness:
  "cmap (create_font (replicate 66 blank_cell)) 97 = Some ''glyph00066'' \<and>
   cmap (create_font (replicate 66 blank_cell)) 65 = Some ''glyph00066''"
  using case_duplication [of 65 "replicate 66 blank_cell"]
  by (simp add: ascii_value_eq glyph_name_values)

section \<open>Claims about the vectorizer\<close>

text \<open>
  C7. For every raster cell (of any shape, so for every 8x8 cell) a pixel is ink exactly
  when its triple differs from \<open>(0x9F, 0x5B, 0x53)\<close>, and the pixel loops draw, in
  reading order, one closed four-point square per ink pixel, with the corners
  \<open>(x*128, (7-y)*128)\<close>, \<open>((x+1)*128, (7-y)*128)\<close>, \<open>((x+1)*128, (8-y)*128)\<close>,
  \<open>(x*128, (8-y)*128)\<close>: the list of ink positions has no repetition and holds exactly
  the ink pixels, and the number of squares is the number of ink pixels. With at least
  one ink pixel these squares are the glyph's outline.
\<close>

theorem one_square_per_ink_pixel:
  "(is_background p \<longleftrightarrow> p = (0x9F, 0x5B, 0x53)) \<and>
   contours (fst (draw_cell c)) = map square_path (ink_positions c) \<and>
   distinct (ink_positions c) \<and>
   set (ink_positions c) =
     {(x, y). x < width c \<and> y < height c \<and> \<not> is_background (pixel_at c y x)} \<and>
   length (contours (fst (draw_cell c))) = ink_count c \<and>
   glyph_outline c =
     (if ink_count c = 0 then [degenerate_path] else map square_path (ink_positions c))"
proof -
  have bg: "is_background p \<longleftrightarrow> p = (0x9F, 0x5B, 0x53)"
    by (cases p) (simp add: is_background_def)
  have sq: "contours (fst (draw_cell c)) = map square_path (ink_positions c)"
    by (simp add: draw_cell_eq)
  have out: "glyph_outline c =
      (if ink_count c = 0 then [degenerate_path] else map square_path (ink_positions c))"
    by (simp add: glyph_outline_eq ink_count_length)
  from bg sq out show ?thesis
    by (simp add: distinct_ink_positions set_ink_positions ink_count_length)
qed

text \<open>
  C8. For a cell with no ink pixel the outline is a single degenerate path of no extent:
  of the path drawn for the empty glyph the pen removes the closing point, which repeats
  the start, and keeps the contour \<open>[(0, 0)]\<close>. The outline is therefore not empty, and
  in the created font the glyph has this outline entry, the metrics entry \<open>(1024, 0)\<close>
  that every glyph has, and its place in the glyph order.
\<close>

theorem empty_cell_degenerate_outline:
  assumes "i < length cs" and "ink_count (cs ! i) = 0"
  shows "glyph_outline (cs ! i) = [degenerate_path] \<and> degenerate_path = [(0, 0)] \<and>
         glyph_outline (cs ! i) \<noteq> [] \<and>
         glyphs (create_font cs) (glyph_name i) = Some [degenerate_path] \<and>
         metrics (create_font cs) (glyph_name i) = Some (1024, 0) \<and>
         metrics (create_font cs) (glyph_name i) = metrics (create_font cs) ''.notdef'' \<and>
         glyph_name i \<in> set (glyph_order (create_font cs))"
proof -
  have out: "glyph_outline (cs ! i) = [degenerate_path]"
    using assms(2) by (simp add: glyph_outline_eq ink_count_length)
  have "glyphs (create_font cs) (glyph_name i) = Some (glyph_outline (cs ! i))"
    using assms(1) by (rule glyphs_create_font)
  with out have g: "glyphs (create_font cs) (glyph_name i) = Some [degenerate_path]" by simp
  have m: "metrics (create_font cs) (glyph_name i) = Some (1024, 0)"
    using assms(1) by (simp add: metrics_create_font)
  have n: "metrics (create_font cs) ''.notdef'' = Some (1024, 0)"
    by (simp add: metrics_create_font)
  have o: "glyph_name i \<in> set (glyph_order (create_font cs))"
    using assms(1) by (simp add: glyph_order_create_font set_glyph_names)
  from out g m n o show ?thesis by (simp add: degenerate_path_def)
qed

theorem empty_cell_degenerate_outline_witness:
  "glyphs (create_font [blank_cell]) ''glyph00001'' = Some [[(0, 0)]] \<and>
   metrics (create_font [blank_cell]) ''glyph00001'' = Some (1024, 0)"
proof -
  have "ink_count ([blank_cell] ! 0) = 0"
    by (simp add: ink_count_def blank_cell_def is_background_def)
  from empty_cell_degenerate_outline [of 0 "[blank_cell]", OF _ this] show ?thesis
    by (simp add: glyph_name_values degenerate_path_def)
qed

section \<open>Claims about assembly\<close>

text \<open>
  C9. The claim: when glyph order and metrics table disagree in length, or a code names
  a glyph outside the glyph order, assembly raises and the writer is not invoked.
  \<open>save_font\<close> hands a font object with both defects to the writer.
\<close>

theorem save_font_does_not_check:
  "length (glyph_order inconsistent_font) = 1 \<and>
   dom (metrics inconsistent_font) = {} \<and>
   cmap inconsistent_font 65 = Some ''glyph00001'' \<and>
   ''glyph00001'' \<notin> set (glyph_order inconsistent_font) \<and>
   save_font \<lparr>characters = [], font_attr = Some inconsistent_font\<rparr> ''out.ttf'' =
     Inr \<lparr>written_font = inconsistent_font, output_path = ''out.ttf''\<rparr>"
  by (simp add: inconsistent_font_def TTFont_def save_font_def)

text \<open>
  C9, amended. The program has no consistency check: \<open>save_font\<close> raises only when no
  font has been created and otherwise hands the font to the writer. Every font that
  \<open>create_font\<close> builds is consistent: the glyph order starts with \<open>.notdef\<close> and has
  no repetition, the metrics table and the outline table have exactly the names of the
  glyph order (so the lengths agree, as do the glyph counts of \<open>hhea\<close> and \<open>maxp\<close>),
  and every code of the character map names a glyph of the glyph order.
\<close>

theorem created_font_consistent:
  "distinct (glyph_order (create_font cs)) \<and>
   hd (glyph_order (create_font cs)) = ''.notdef'' \<and>
   length (glyph_order (create_font cs)) = length cs + 2 \<and>
   dom (metrics (create_font cs)) = set (glyph_order (create_font cs)) \<and>
   card (dom (metrics (create_font cs))) = length (glyph_order (create_font cs)) \<and>
   numberOfHMetrics (create_font cs) = length (glyph_order (create_font cs)) \<and>
   numGlyphs (create_font cs) = length (glyph_order (create_font cs)) \<and>
   dom (glyphs (create_font cs)) = set (glyph_order (create_font cs)) \<and>
   ran (cmap (create_font cs)) \<subseteq> set (glyph_order (create_font cs)) \<and>
   save_font (FontCreator cs) path = Inl (ValueError ''Font not created. Call create_font() first.'') \<and>
   save_font (run_create_font (FontCreator cs)) path =
     Inr \<lparr>written_font = create_font cs, output_path = path\<rparr>"
proof -
  have d: "distinct (glyph_order (create_font cs))"
    by (simp add: glyph_order_create_font distinct_glyph_names)
  have len: "length (glyph_order (create_font cs)) = length cs + 2"
    by (simp add: glyph_order_create_font glyph_names_def)
  have dm: "dom (metrics (create_font cs)) = set (glyph_order (create_font cs))"
    by (auto simp: dom_def metrics_create_font glyph_order_create_font set_glyph_names)
  have card: "card (dom (metrics (create_font cs))) = length (glyph_order (create_font cs))"
    using d by (simp add: dm distinct_card)
  have dg: "dom (glyphs (create_font cs)) = set (glyph_order (create_font cs))"
    by (simp add: dom_glyphs_create_font glyph_order_create_font set_glyph_names)
  have rn: "ran (cmap (create_font cs)) \<subseteq> set (glyph_order (create_font cs))"
  proof
    fix nm assume "nm \<in> ran (cmap (create_font cs))"
    then obtain code where "cmap (create_font cs) code = Some nm" by (auto simp: ran_def)
    from cmap_create_font_range [OF this]
    show "nm \<in> set (glyph_order (create_font cs))"
      by (auto simp: glyph_order_create_font set_glyph_names)
  qed
  have sv: "save_font (FontCreator cs) path = Inl (ValueError ''Font not created. Call create_font() first.'') \<and>
     save_font (run_create_font (FontCreator cs)) path =
       Inr \<lparr>written_font = create_font cs, output_path = path\<rparr>"
    by (simp add: save_font_def run_create_font_def FontCreator_def)
  have h: "hd (glyph_order (create_font cs)) = ''.notdef''"
    by (simp add: glyph_order_create_font glyph_names_def)
  from d h len dm card dg rn sv counts_create_font [of cs] show ?thesis by simp
qed

end
